theory Spec2Isabelle
  imports Complex_Main "HOL-Library.Product_Lexorder"
begin

section \<open>Numbers and utilities\<close>

text \<open>
  The program is \<^verbatim>\<open>src/main.js\<close>. A JavaScript number is modelled as a
  \<^typ>\<open>real\<close>: decimal constants stand for the rationals they denote and arithmetic is
  exact, so rounding of IEEE doubles is outside the model. Counters that the source only
  ever increments from zero (recursion depth, loop indices, array lengths) are
  \<^typ>\<open>nat\<close>. \<^verbatim>\<open>Math.floor\<close> is \<^const>\<open>floor\<close>, read back as a real where the
  source keeps computing with it.

  \<^verbatim>\<open>Math.random()\<close> is an explicit source of draws: a function \<open>rng\<close> from the
  number of draws made so far to the value returned, and a counter that every call
  advances.
\<close>

definition clamp :: "real \<Rightarrow> real \<Rightarrow> real \<Rightarrow> real" where
  "clamp v a b = max a (min b v)"

definition lerp :: "real \<Rightarrow> real \<Rightarrow> real \<Rightarrow> real" where
  "lerp a b t = a + (b - a) * t"

definition smoothstep :: "real \<Rightarrow> real" where
  "smoothstep t = t * t * (3 - 2 * t)"

type_synonym rng = "nat \<Rightarrow> real"

definition random :: "rng \<Rightarrow> nat \<Rightarrow> real \<times> nat" where
  "random rng c = (rng c, Suc c)"

definition rand :: "rng \<Rightarrow> real \<Rightarrow> real \<Rightarrow> nat \<Rightarrow> real \<times> nat" where
  "rand rng a b c = (case random rng c of (u, c') \<Rightarrow> (a + u * (b - a), c'))"

definition randi :: "rng \<Rightarrow> real \<Rightarrow> real \<Rightarrow> nat \<Rightarrow> real \<times> nat" where
  "randi rng a b c =
     (case random rng c of (u, c') \<Rightarrow> (a + of_int \<lfloor>u * (b - a + 1)\<rfloor>, c'))"

definition cubicBezier :: "real \<Rightarrow> real \<Rightarrow> real \<Rightarrow> real \<Rightarrow> real \<Rightarrow> real" where
  "cubicBezier a b c d t =
     (let mt = 1 - t
      in (mt * mt * mt) * a + 3 * (mt * mt) * t * b + 3 * mt * (t * t) * c + (t * t * t) * d)"

section \<open>Inputs of a tick\<close>

text \<open>
  What the program reads from its surroundings: the viewport size and clock in
  \<^verbatim>\<open>state\<close>, the images the loader has delivered so far, the bytes that
  \<^verbatim>\<open>getImageData\<close> returns for the offscreen canvas, and the random source. An image
  handle is a number; \<^verbatim>\<open>images.tiles\<close> may have holes, which read as
  \<^verbatim>\<open>undefined\<close> (here \<^const>\<open>None\<close>).
\<close>

type_synonym image = nat

record tile =
  ok :: bool
  img :: "image option"

record images =
  face :: tile
  tiles :: "tile option list"

record env =
  state_w :: real
  state_h :: real
  state_now :: real
  images :: images
  imgData :: "int \<Rightarrow> nat option"
  rng :: rng

text \<open>Reading \<^verbatim>\<open>images.tiles[idx]\<close>: outside the array the result is undefined.\<close>

definition tileAt :: "tile option list \<Rightarrow> real \<Rightarrow> tile option" where
  "tileAt ts idx =
     (if 0 \<le> idx \<and> idx = of_int \<lfloor>idx\<rfloor> \<and> nat \<lfloor>idx\<rfloor> < length ts
      then ts ! nat \<lfloor>idx\<rfloor> else None)"

text \<open>The loop of \<^verbatim>\<open>getRandomTileImage\<close>, from attempt \<open>k\<close> on.\<close>

function pickTile :: "tile option list \<Rightarrow> rng \<Rightarrow> nat \<Rightarrow> nat \<Rightarrow> image option \<times> nat" where
  "pickTile ts r k c =
     (if k < 6 then
        (case randi r 0 (real (length ts) - 1) c of (idx, c') \<Rightarrow>
           (case tileAt ts idx of
              Some it \<Rightarrow>
                (if ok it \<and> img it \<noteq> None then (img it, c') else pickTile ts r (Suc k) c')
            | None \<Rightarrow> pickTile ts r (Suc k) c'))
      else (None, c))"
  by pat_completeness auto
termination
  by (relation "measure (\<lambda>(ts, r, k, c). 6 - k)") auto

declare pickTile.simps [simp del]

definition getRandomTileImage :: "images \<Rightarrow> rng \<Rightarrow> nat \<Rightarrow> image option \<times> nat" where
  "getRandomTileImage ims r c =
     (if length (tiles ims) = 0 then (None, c) else pickTile (tiles ims) r 0 c)"

section \<open>Scene system\<close>

datatype SceneName = SEED | TREE | PAUSE | FACE

record scene =
  name :: SceneName
  timeIn :: real

definition switchTo :: "SceneName \<Rightarrow> scene \<Rightarrow> scene" where
  "switchTo next sc = sc\<lparr>name := next, timeIn := 0\<rparr>"

section \<open>Seed\<close>

record seed =
  seed_x :: real
  seed_y :: real
  seed_r :: real
  bloom :: real

definition seed_init :: "env \<Rightarrow> seed" where
  "seed_init e =
     \<lparr>seed_x = state_w e * 0.5, seed_y = state_h e * 0.78,
      seed_r = max 5 (min 10 (state_w e * 0.01)), bloom = 0\<rparr>"

definition seed_update :: "scene \<Rightarrow> seed \<Rightarrow> seed" where
  "seed_update sc sd = sd\<lparr>bloom := smoothstep (clamp (timeIn sc / 2.2) 0 1)\<rparr>"

section \<open>Procedural tree\<close>

record point =
  pt_x :: real
  pt_y :: real

record node =
  n_x :: real
  n_y :: real
  n_angle :: real
  n_len :: real
  n_thickness :: real
  n_depth :: nat
  n_swaySeed :: real

record segment =
  p0 :: point
  p1 :: point
  p2 :: point
  p3 :: point
  thickness :: real
  depth :: nat
  swaySeed :: real

record tree =
  segments :: "segment list"
  grown :: bool
  progress :: real
  baseX :: real
  baseY :: real

text \<open>
  What \<^verbatim>\<open>_growRecursive\<close> changes while it runs: the segment array and the random
  source. \<open>g_calls\<close> is not in the source: it counts the invocations, one at every
  entry of the function.
\<close>

record grow =
  g_segments :: "segment list"
  g_rnd :: nat
  g_calls :: nat

text \<open>
  The number of children: two below depth 2, otherwise decided by one draw, which is
  only made in that case.
\<close>

definition branchCount :: "rng \<Rightarrow> nat \<Rightarrow> nat \<Rightarrow> nat \<times> nat" where
  "branchCount r d c =
     (if d < 2 then (2, c)
      else (case random r c of (u, c') \<Rightarrow> (if u < 0.65 then 2 else 1, c')))"

text \<open>The segment of a node, for a given bend.\<close>

definition nodeSegment :: "node \<Rightarrow> real \<Rightarrow> segment" where
  "nodeSegment nd bend =
     (let x = n_x nd; y = n_y nd; angle = n_angle nd; len = n_len nd
      in \<lparr>p0 = \<lparr>pt_x = x, pt_y = y\<rparr>,
          p1 = \<lparr>pt_x = x + cos (angle + bend) * (len * 0.35),
                pt_y = y + sin (angle + bend) * (len * 0.35)\<rparr>,
          p2 = \<lparr>pt_x = x + cos (angle - bend * 0.3) * (len * 0.7),
                pt_y = y + sin (angle - bend * 0.3) * (len * 0.7)\<rparr>,
          p3 = \<lparr>pt_x = x + cos (angle + bend * 0.15) * len,
                pt_y = y + sin (angle + bend * 0.15) * len\<rparr>,
          thickness = n_thickness nd, depth = n_depth nd, swaySeed = n_swaySeed nd\<rparr>)"

text \<open>
  The child node built in iteration \<open>i\<close> of the branching loop, with the four draws it
  makes in the order of the source: \<open>t\<close>, the length factor, the thickness factor, the
  angle offset.
\<close>

definition childNode :: "rng \<Rightarrow> node \<Rightarrow> segment \<Rightarrow> nat \<Rightarrow> nat \<Rightarrow> nat \<Rightarrow> node \<times> nat" where
  "childNode r nd sg maxDepth i c =
     (case rand r 0.45 0.88 c of (t, c1) \<Rightarrow>
      case rand r 0.58 0.78 c1 of (fl, c2) \<Rightarrow>
      case rand r 0.62 0.78 c2 of (ft, c3) \<Rightarrow>
      case rand r (- 0.75) 0.75 c3 of (da, c4) \<Rightarrow>
        (\<lparr>n_x = cubicBezier (pt_x (p0 sg)) (pt_x (p1 sg)) (pt_x (p2 sg)) (pt_x (p3 sg)) t,
          n_y = cubicBezier (pt_y (p0 sg)) (pt_y (p1 sg)) (pt_y (p2 sg)) (pt_y (p3 sg)) t,
          n_angle = n_angle nd + da * (1.0 - real (n_depth nd) / (real maxDepth + 1)),
          n_len = n_len nd * fl,
          n_thickness = n_thickness nd * ft,
          n_depth = n_depth nd + 1,
          n_swaySeed = n_swaySeed nd + real i * 97.13 + real (n_depth nd) * 33.7\<rparr>, c4))"

text \<open>
  \<^verbatim>\<open>_growRecursive\<close> and its branching loop (\<open>growBranches\<close>, from iteration \<open>i\<close>
  up to \<open>bc\<close>). The segment is pushed before the depth test.
\<close>

function growRecursive :: "rng \<Rightarrow> node \<Rightarrow> nat \<Rightarrow> grow \<Rightarrow> grow"
  and growBranches :: "rng \<Rightarrow> node \<Rightarrow> segment \<Rightarrow> nat \<Rightarrow> nat \<Rightarrow> nat \<Rightarrow> grow \<Rightarrow> grow" where
  "growRecursive r nd maxDepth g =
     (case rand r (- 0.35) 0.35 (g_rnd g) of (bend, c1) \<Rightarrow>
        (let sg = nodeSegment nd bend;
             g1 = g\<lparr>g_segments := g_segments g @ [sg], g_rnd := c1, g_calls := Suc (g_calls g)\<rparr>
         in if n_depth nd \<ge> maxDepth then g1
            else (case branchCount r (n_depth nd) c1 of (bc, c2) \<Rightarrow>
                    growBranches r nd sg maxDepth bc 0 (g1\<lparr>g_rnd := c2\<rparr>))))"
| "growBranches r nd sg maxDepth bc i g =
     (if i < bc then
        (case childNode r nd sg maxDepth i (g_rnd g) of (ch, c') \<Rightarrow>
           growBranches r nd sg maxDepth bc (Suc i) (growRecursive r ch maxDepth (g\<lparr>g_rnd := c'\<rparr>)))
      else g)"
  by pat_completeness auto

termination
proof (relation "inv_image (less_than <*lex*> less_than)
    (\<lambda>v. case v of
        Inl (r, nd, m, g) \<Rightarrow> (m + 2 - n_depth nd, 0::nat)
      | Inr (r, nd, sg, m, bc, i, g) \<Rightarrow> (m + 1 - n_depth nd, 1 + bc - i))", goal_cases)
  case 1
  show ?case by (intro wf_inv_image wf_lex_prod wf_less_than)
next
  case (2 r nd maxDepth g bend c1 sg g1 bc c2)
  then show ?case by auto
next
  case (3 r nd sg maxDepth bc i g ch c')
  then have "n_depth ch = n_depth nd + 1"
    by (auto simp: childNode_def split: prod.splits)
  with 3 show ?case by auto
next
  case 4
  then show ?case by auto
qed

declare growRecursive.simps [simp del] growBranches.simps [simp del]

text \<open>
  \<^verbatim>\<open>tree.init\<close>: the root's sway seed is drawn first, then the tree is grown with
  maximum depth 7 and the segments are sorted by depth, then by descending start height.
  The comparator \<^verbatim>\<open>(a.depth - b.depth) || (b.p0.y - a.p0.y)\<close> orders by the key
  (depth, \<open>-p0.y\<close>), and the sort is stable.
\<close>

definition rootNode :: "env \<Rightarrow> real \<Rightarrow> node" where
  "rootNode e sway =
     \<lparr>n_x = state_w e * 0.5, n_y = state_h e * 0.82, n_angle = - pi / 2,
      n_len = min 260 (state_h e * 0.32),
      n_thickness = max 6 (min 14 (state_w e * 0.02)),
      n_depth = 0, n_swaySeed = sway\<rparr>"

definition tree_grow :: "env \<Rightarrow> nat \<Rightarrow> grow" where
  "tree_grow e c =
     (case rand (rng e) 0 1000 c of (sway, c1) \<Rightarrow>
        growRecursive (rng e) (rootNode e sway) 7 \<lparr>g_segments = [], g_rnd = c1, g_calls = 0\<rparr>)"

definition tree_init :: "env \<Rightarrow> nat \<Rightarrow> tree \<times> nat" where
  "tree_init e c =
     (let g = tree_grow e c
      in (\<lparr>segments = sort_key (\<lambda>s. (depth s, - pt_y (p0 s))) (g_segments g),
           grown = False, progress = 0,
           baseX = state_w e * 0.5, baseY = state_h e * 0.82\<rparr>, g_rnd g))"

section \<open>Growth\<close>

text \<open>
  The first line of \<^verbatim>\<open>tree.update\<close> computes the growth duration from
  \<^verbatim>\<open>state.w\<close>; \<^verbatim>\<open>tree.draw\<close> computes the number of segments to stroke.
\<close>

definition growTime :: "real \<Rightarrow> real" where
  "growTime w = clamp (6.5 - w / 900) 4.8 7.2"

definition tree_update :: "env \<Rightarrow> scene \<Rightarrow> tree \<Rightarrow> tree" where
  "tree_update e sc tr =
     (let t = clamp (timeIn sc / growTime (state_w e)) 0 1
      in tr\<lparr>progress := smoothstep t, grown := (t \<ge> 1)\<rparr>)"


section \<open>Face particle system\<close>

record targetPoint =
  tp_x :: real
  tp_y :: real
  tp_lum :: real

record particle =
  tx :: real
  ty :: real
  p_x :: real
  p_y :: real
  vx :: real
  vy :: real
  p_size :: real
  rot :: real
  rotV :: real
  p_a :: real
  p_lum :: real
  p_img :: "image option"
  delay :: real

text \<open>
  \<open>off_width\<close> and \<open>off_height\<close> are the size of the offscreen canvas; a canvas
  that \<^verbatim>\<open>init\<close> has just created is 300 by 150.
\<close>

record facePortrait =
  ready :: bool
  targetPoints :: "targetPoint list"
  particles :: "particle list"
  builtOnce :: bool
  fadeIn :: real
  off_width :: real
  off_height :: real

definition facePortrait_init :: facePortrait where
  "facePortrait_init =
     \<lparr>ready = False, targetPoints = [], particles = [], builtOnce = False, fadeIn = 0,
      off_width = 300, off_height = 150\<rparr>"

subsection \<open>Sampling the face image\<close>

text \<open>
  A read of the pixel array at a number: a byte when the number is an index of the array,
  undefined otherwise. Arithmetic on an undefined value gives NaN, which every later
  step passes on and which makes the comparison with the draw false: \<^const>\<open>None\<close>.
\<close>

definition pixelAt :: "(int \<Rightarrow> nat option) \<Rightarrow> real \<Rightarrow> real option" where
  "pixelAt d i = (if i = of_int \<lfloor>i\<rfloor> then map_option real (d \<lfloor>i\<rfloor>) else None)"

definition luminance :: "real \<Rightarrow> real \<Rightarrow> real \<Rightarrow> real" where
  "luminance r g b = (0.2126 * r + 0.7152 * g + 0.0722 * b) / 255"

definition keepProb :: "real \<Rightarrow> real" where
  "keepProb lum = clamp ((lum - 0.15) * 1.6) 0 1"

definition lumAt :: "(int \<Rightarrow> nat option) \<Rightarrow> real \<Rightarrow> real option" where
  "lumAt d i =
     (case (pixelAt d i, pixelAt d (i + 1), pixelAt d (i + 2)) of
        (Some r, Some g, Some b) \<Rightarrow> Some (luminance r g b)
      | _ \<Rightarrow> None)"

definition sampleStep :: "real \<Rightarrow> real" where
  "sampleStep portraitW = clamp (of_int \<lfloor>portraitW / 80\<rfloor>) 4 8"

text \<open>One grid cell: the draw is made whatever the luminance is.\<close>

definition sampleCell ::
  "env \<Rightarrow> real \<Rightarrow> real \<Rightarrow> real \<Rightarrow> targetPoint list \<times> nat \<Rightarrow> targetPoint list \<times> nat" where
  "sampleCell e portraitW y x acc =
     (case acc of (points, c) \<Rightarrow>
        (let i = (y * portraitW + x) * 4;
             lum = lumAt (imgData e) i
         in case random (rng e) c of (u, c') \<Rightarrow>
              (case lum of
                 Some l \<Rightarrow>
                   (if u < keepProb l
                    then (points @ [\<lparr>tp_x = x, tp_y = y, tp_lum = l\<rparr>], c')
                    else (points, c'))
               | None \<Rightarrow> (points, c'))))"

text \<open>The inner loop over \<open>x\<close> and the outer loop over \<open>y\<close>.\<close>

function sampleRow ::
  "env \<Rightarrow> real \<Rightarrow> real \<Rightarrow> real \<Rightarrow> targetPoint list \<times> nat \<Rightarrow> targetPoint list \<times> nat" where
  "sampleRow e portraitW y x acc =
     (if x < portraitW
      then sampleRow e portraitW y (x + sampleStep portraitW) (sampleCell e portraitW y x acc)
      else acc)"
  by pat_completeness auto
termination
proof (relation "measure (\<lambda>(e, portraitW, y, x, acc). nat \<lceil>portraitW - x\<rceil>)", goal_cases)
  case 1
  show ?case by simp
next
  case (2 e portraitW y x acc)
  have "4 \<le> sampleStep portraitW"
    by (simp add: sampleStep_def clamp_def)
  with 2 show ?case by simp linarith
qed

function sampleRows ::
  "env \<Rightarrow> real \<Rightarrow> real \<Rightarrow> real \<Rightarrow> targetPoint list \<times> nat \<Rightarrow> targetPoint list \<times> nat" where
  "sampleRows e portraitW portraitH y acc =
     (if y < portraitH
      then sampleRows e portraitW portraitH (y + sampleStep portraitW)
             (sampleRow e portraitW y 0 acc)
      else acc)"
  by pat_completeness auto
termination
proof (relation "measure (\<lambda>(e, portraitW, portraitH, y, acc). nat \<lceil>portraitH - y\<rceil>)", goal_cases)
  case 1
  show ?case by simp
next
  case (2 e portraitW portraitH y acc)
  have "4 \<le> sampleStep portraitW"
    by (simp add: sampleStep_def clamp_def)
  with 2 show ?case by simp linarith
qed

text \<open>The fallback loop, from iteration \<open>k\<close> up to 900.\<close>

definition syntheticPoint :: "rng \<Rightarrow> real \<Rightarrow> real \<Rightarrow> nat \<Rightarrow> targetPoint \<times> nat" where
  "syntheticPoint r portraitW portraitH c =
     (case randi r 0 (portraitW - 1) c of (x, c1) \<Rightarrow>
      case randi r 0 (portraitH - 1) c1 of (y, c2) \<Rightarrow>
      case rand r 0.2 0.9 c2 of (l, c3) \<Rightarrow>
        (\<lparr>tp_x = x, tp_y = y, tp_lum = l\<rparr>, c3))"

function synthetic ::
  "rng \<Rightarrow> real \<Rightarrow> real \<Rightarrow> nat \<Rightarrow> targetPoint list \<times> nat \<Rightarrow> targetPoint list \<times> nat" where
  "synthetic r portraitW portraitH k acc =
     (if k < 900
      then (case acc of (points, c) \<Rightarrow>
              (case syntheticPoint r portraitW portraitH c of (pt, c') \<Rightarrow>
                 synthetic r portraitW portraitH (Suc k) (points @ [pt], c')))
      else acc)"
  by pat_completeness auto
termination
  by (relation "measure (\<lambda>(r, portraitW, portraitH, k, acc). 900 - k)") auto

declare sampleRow.simps [simp del] sampleRows.simps [simp del] synthetic.simps [simp del]

subsection \<open>Building the targets\<close>

text \<open>
  \<^verbatim>\<open>tryBuildTargets\<close>, on the portrait and the random source's counter. The two
  early returns come first, as in the source.
\<close>

definition tryBuildTargets :: "env \<Rightarrow> facePortrait \<Rightarrow> nat \<Rightarrow> facePortrait \<times> nat" where
  "tryBuildTargets e fp c =
     (if builtOnce fp then (fp, c)
      else if \<not> ok (face (images e)) \<or> img (face (images e)) = None then (fp, c)
      else
        (let portraitW = min 420 (state_w e * 0.58);
             portraitH = portraitW
         in case sampleRows e portraitW portraitH 0 ([], c) of (points, c1) \<Rightarrow>
              (case (if length points < 600
                     then synthetic (rng e) portraitW portraitH 0 (points, c1)
                     else (points, c1)) of (points', c2) \<Rightarrow>
                 (fp\<lparr>off_width := of_int \<lfloor>portraitW\<rfloor>, off_height := of_int \<lfloor>portraitH\<rfloor>,
                     targetPoints := points', ready := True, builtOnce := True,
                     particles := []\<rparr>, c2))))"

subsection \<open>Spawning particles\<close>

text \<open>
  The particle pushed for one target point. The draws are made in the order of the
  source: size, spawn position, rotation, rotation speed, the tile image, the delay.
\<close>

definition spawnParticle :: "env \<Rightarrow> facePortrait \<Rightarrow> targetPoint \<Rightarrow> nat \<Rightarrow> particle \<times> nat" where
  "spawnParticle e fp p c =
     (let portraitW = off_width fp;
          centerX = state_w e * 0.5;
          topY = state_h e * 0.25;
          left = centerX - portraitW * 0.5;
          top = topY;
          baseSize = clamp (portraitW / 40) 7 14
      in case rand (rng e) 0.70 1.25 c of (fs, c1) \<Rightarrow>
         case rand (rng e) (- 30) 30 c1 of (jx, c2) \<Rightarrow>
         case rand (rng e) 0 40 c2 of (jy, c3) \<Rightarrow>
         case rand (rng e) (- pi) pi c3 of (ro, c4) \<Rightarrow>
         case rand (rng e) (- 0.012) 0.012 c4 of (rv, c5) \<Rightarrow>
         case getRandomTileImage (images e) (rng e) c5 of (im, c6) \<Rightarrow>
         case rand (rng e) 0 1.2 c6 of (dl, c7) \<Rightarrow>
           (\<lparr>tx = left + tp_x p, ty = top + tp_y p,
             p_x = centerX + jx, p_y = state_h e * 0.62 + jy,
             vx = 0, vy = 0,
             p_size = baseSize * fs,
             rot = ro, rotV = rv,
             p_a = 0, p_lum = tp_lum p, p_img = im, delay = dl\<rparr>, c7))"

text \<open>
  The loop of \<^verbatim>\<open>spawnBatch\<close>, from index \<open>i\<close> up to \<open>end\<close>; \<open>end\<close> is at most
  the number of target points, so every read of \<^verbatim>\<open>targetPoints[i]\<close> is in range.
\<close>

function spawnLoop :: "env \<Rightarrow> nat \<Rightarrow> nat \<Rightarrow> facePortrait \<times> nat \<Rightarrow> facePortrait \<times> nat" where
  "spawnLoop e end i acc =
     (if i < end
      then (case acc of (fp, c) \<Rightarrow>
              (case spawnParticle e fp (targetPoints fp ! i) c of (p, c') \<Rightarrow>
                 spawnLoop e end (Suc i) (fp\<lparr>particles := particles fp @ [p]\<rparr>, c')))
      else acc)"
  by pat_completeness auto
termination
  by (relation "measure (\<lambda>(e, end, i, acc). end - i)") auto

declare spawnLoop.simps [simp del]

definition spawnBatch :: "env \<Rightarrow> nat \<Rightarrow> facePortrait \<Rightarrow> nat \<Rightarrow> facePortrait \<times> nat" where
  "spawnBatch e maxNew fp c =
     (if \<not> ready fp then (fp, c)
      else
        (let total = length (targetPoints fp)
         in if length (particles fp) \<ge> total then (fp, c)
            else
              (let start = length (particles fp);
                   end = min total (start + maxNew)
               in spawnLoop e end start (fp, c))))"

subsection \<open>Moving particles\<close>

text \<open>The body of the particle loop of \<^verbatim>\<open>facePortrait.update\<close>, for index \<open>i\<close>.\<close>

definition targetA :: "real \<Rightarrow> real" where
  "targetA lum = clamp (0.55 + lum * 0.55) 0.35 0.95"

definition updateParticle :: "env \<Rightarrow> scene \<Rightarrow> nat \<Rightarrow> particle \<Rightarrow> nat \<Rightarrow> particle \<times> nat" where
  "updateParticle e sc i p c =
     (case (case p_img p of
              None \<Rightarrow> getRandomTileImage (images e) (rng e) c
            | Some v \<Rightarrow> (Some v, c)) of (im, c1) \<Rightarrow>
        (let settle = 0.085;
             damp = 0.88;
             q = p\<lparr>p_img := im\<rparr>;
             localT = timeIn sc - delay q
         in if localT < 0 then (q, c1)
            else
              (let dx = tx q - p_x q;
                   dy = ty q - p_y q;
                   vx' = (vx q + dx * settle) * damp;
                   vy' = (vy q + dy * settle) * damp;
                   float = sin ((state_now e * 0.001) + real i * 0.03) * 0.10
               in (q\<lparr>vx := vx', vy := vy',
                      p_x := p_x q + vx', p_y := p_y q + vy' + float,
                      rot := rot q + rotV q,
                      p_a := lerp (p_a q) (targetA (p_lum q)) 0.06\<rparr>, c1))))"

fun updateParticles ::
  "env \<Rightarrow> scene \<Rightarrow> nat \<Rightarrow> particle list \<Rightarrow> nat \<Rightarrow> particle list \<times> nat" where
  "updateParticles e sc i [] c = ([], c)"
| "updateParticles e sc i (p # ps) c =
     (case updateParticle e sc i p c of (p', c1) \<Rightarrow>
        (case updateParticles e sc (Suc i) ps c1 of (ps', c2) \<Rightarrow> (p' # ps', c2)))"

definition facePortrait_update ::
  "env \<Rightarrow> scene \<Rightarrow> facePortrait \<Rightarrow> nat \<Rightarrow> facePortrait \<times> nat" where
  "facePortrait_update e sc fp c =
     (case tryBuildTargets e fp c of (fp1, c1) \<Rightarrow>
      case spawnBatch e (if state_w e < 520 then 70 else 120) fp1 c1 of (fp2, c2) \<Rightarrow>
      case updateParticles e sc 0 (particles fp2) c2 of (ps, c3) \<Rightarrow>
        (fp2\<lparr>fadeIn := smoothstep (clamp (timeIn sc / 2.2) 0 1), particles := ps\<rparr>, c3))"

section \<open>Orchestration\<close>

text \<open>
  The mutable objects of the program, and the count of draws made from the random
  source.
\<close>

record world =
  w_scene :: scene
  w_seed :: seed
  w_tree :: tree
  w_facePortrait :: facePortrait
  rnd :: nat

definition resetAll :: "env \<Rightarrow> world \<Rightarrow> world" where
  "resetAll e wd =
     (case tree_init e (rnd wd) of (tr, c) \<Rightarrow>
        \<lparr>w_scene = switchTo SEED (w_scene wd), w_seed = seed_init e, w_tree = tr,
         w_facePortrait = facePortrait_init, rnd = c\<rparr>)"

definition update :: "env \<Rightarrow> real \<Rightarrow> world \<Rightarrow> world" where
  "update e dt wd =
     (let sc = (w_scene wd)\<lparr>timeIn := timeIn (w_scene wd) + dt\<rparr>;
          wd1 = wd\<lparr>w_scene := sc\<rparr>
      in if name sc = SEED then
           (let wd2 = wd1\<lparr>w_seed := seed_update sc (w_seed wd1)\<rparr>
            in if timeIn sc > 2.4 then wd2\<lparr>w_scene := switchTo TREE sc\<rparr> else wd2)
         else if name sc = TREE then
           (let tr = tree_update e sc (w_tree wd1);
                wd2 = wd1\<lparr>w_tree := tr\<rparr>
            in if grown tr then wd2\<lparr>w_scene := switchTo PAUSE sc\<rparr> else wd2)
         else if name sc = PAUSE then
           (if timeIn sc > 1.2 then wd1\<lparr>w_scene := switchTo FACE sc\<rparr> else wd1)
         else if name sc = FACE then
           (case facePortrait_update e sc (w_facePortrait wd1) (rnd wd1) of (fp, c) \<Rightarrow>
              wd1\<lparr>w_facePortrait := fp, rnd := c\<rparr>)
         else wd1)"

text \<open>
  What happens to the program after it has started: a frame calls \<^verbatim>\<open>update\<close> with
  the inputs of that moment, a click on the replay button calls \<^verbatim>\<open>resetAll\<close>.
\<close>

datatype event = Tick env real | Replay env

fun step :: "event \<Rightarrow> world \<Rightarrow> world" where
  "step (Tick e dt) wd = update e dt wd"
| "step (Replay e) wd = resetAll e wd"

fun run :: "event list \<Rightarrow> world \<Rightarrow> world" where
  "run [] wd = wd"
| "run (ev # evs) wd = run evs (step ev wd)"

section \<open>States of the portrait\<close>

text \<open>
  What holds of the portrait in every state the program reaches: \<open>ready\<close> is only set
  together with \<open>builtOnce\<close> and with at least 600 targets, particles exist only once
  the targets are built, and there are never more particles than targets.
\<close>

definition portrait_inv :: "facePortrait \<Rightarrow> bool" where
  "portrait_inv fp \<longleftrightarrow>
     (ready fp \<longrightarrow> builtOnce fp)
     \<and> (ready fp \<longrightarrow> 600 \<le> length (targetPoints fp))
     \<and> (builtOnce fp \<longrightarrow> length (particles fp) \<le> length (targetPoints fp))
     \<and> (\<not> builtOnce fp \<longrightarrow> particles fp = [])"

section \<open>Concrete inputs\<close>

text \<open>
  A desktop viewport on which no image has loaded yet, with a random source that always
  returns 0.9; and the objects as the program's object literals create them, before the
  first \<^verbatim>\<open>resetAll\<close> (the offscreen canvas, which does not exist yet, has the
  size of a fresh one).
\<close>

definition env0 :: env where
  "env0 =
     \<lparr>state_w = 1350, state_h = 800, state_now = 0,
      images = \<lparr>face = \<lparr>ok = False, img = None\<rparr>, tiles = []\<rparr>,
      imgData = (\<lambda>i. None), rng = (\<lambda>n. 0.9)\<rparr>"

definition world0 :: world where
  "world0 =
     \<lparr>w_scene = \<lparr>name = SEED, timeIn = 0\<rparr>,
      w_seed = \<lparr>seed_x = 0, seed_y = 0, seed_r = 6, bloom = 0\<rparr>,
      w_tree = \<lparr>segments = [], grown = False, progress = 0, baseX = 0, baseY = 0\<rparr>,
      w_facePortrait = facePortrait_init, rnd = 0\<rparr>"


text \<open>
  A viewport of width 20 on which the face image has loaded; the offscreen canvas holds
  one white pixel, at the origin.
\<close>

definition envF :: env where
  "envF =
     \<lparr>state_w = 20, state_h = 800, state_now = 0,
      images = \<lparr>face = \<lparr>ok = True, img = Some 0\<rparr>, tiles = []\<rparr>,
      imgData = (\<lambda>i. if 0 \<le> i \<and> i < 4 then Some 255 else None), rng = (\<lambda>n. 0.9)\<rparr>"

text \<open>
  A desktop viewport on which the face image has loaded, and the offscreen canvas is
  white all over.
\<close>

definition envW :: env where
  "envW =
     \<lparr>state_w = 1350, state_h = 800, state_now = 0,
      images = \<lparr>face = \<lparr>ok = True, img = Some 0\<rparr>, tiles = []\<rparr>,
      imgData = (\<lambda>i. if 0 \<le> i then Some 255 else None), rng = (\<lambda>n. 0.9)\<rparr>"

text \<open>
  A built portrait with 600 targets and one particle, which starts to move at time 0.5.
\<close>

definition fpP :: facePortrait where
  "fpP =
     \<lparr>ready = True, targetPoints = replicate 600 \<lparr>tp_x = 0, tp_y = 0, tp_lum = 0.5\<rparr>,
      particles =
        [\<lparr>tx = 500, ty = 200, p_x = 675, p_y = 500, vx = 0, vy = 0, p_size = 10, rot = 0,
          rotV = 0.01, p_a = 0, p_lum = 0.5, p_img = Some 0, delay = 0.5\<rparr>],
      builtOnce = True, fadeIn = 0, off_width = 420, off_height = 420\<rparr>"

section \<open>Clamping\<close>

lemma clamp_lower: "a \<le> clamp v a b"
  by (simp add: clamp_def)

lemma clamp_upper: "a \<le> b \<Longrightarrow> clamp v a b \<le> b"
  by (simp add: clamp_def)

lemma clamp_mono: "v1 \<le> v2 \<Longrightarrow> clamp v1 a b \<le> clamp v2 a b"
  unfolding clamp_def by (intro max.mono min.mono) simp_all

section \<open>The growth duration and the viewport width\<close>

lemma growTime_bounds: "4.8 \<le> growTime w \<and> growTime w \<le> 7.2"
  unfolding growTime_def using clamp_lower clamp_upper [of "4.8" "7.2"] by simp

lemma growTime_antimono: "w1 \<le> w2 \<Longrightarrow> growTime w2 \<le> growTime w1"
  unfolding growTime_def by (rule clamp_mono) (simp add: divide_right_mono)

text \<open>
  C1, as the code has it: the growth duration is \<open>6.5 - w / 900\<close> clamped to
  [4.8, 7.2], so for any two viewport widths it lies in that interval, and of two widths
  \<open>w1 < w2\<close> the wider one has the shorter (or equal) duration.
\<close>

theorem growTime_clamped_antimono:
  "4.8 \<le> growTime w1 \<and> growTime w1 \<le> 7.2 \<and> 4.8 \<le> growTime w2 \<and> growTime w2 \<le> 7.2
   \<and> (w1 < w2 \<longrightarrow> growTime w2 \<le> growTime w1)"
  using growTime_bounds [of w1] growTime_bounds [of w2] growTime_antimono [of w1 w2] by simp

text \<open>A phone of width 360 grows its tree in 6.1 time units, a desktop of width 1440 in 4.9.\<close>

theorem growTime_clamped_antimono_witness:
  "(360::real) < 1440 \<and> growTime 1440 \<le> growTime 360 \<and> growTime 360 = 6.1 \<and> growTime 1440 = 4.9"
  using growTime_clamped_antimono [of 360 1440] by (simp add: growTime_def clamp_def)

text \<open>
  C1 as the specification states it (the narrower viewport has the shorter duration)
  fails for these two widths.
\<close>

theorem growTime_narrower_longer_counterexample:
  "(360::real) < 1440 \<and> \<not> growTime 360 \<le> growTime 1440"
  by (simp add: growTime_def clamp_def)

section \<open>From Seed to Tree\<close>


lemma run_append: "run (xs @ ys) wd = run ys (run xs wd)"
  by (induction xs arbitrary: wd) simp_all





section \<open>One segment per invocation\<close>

lemma nodeSegment_depth: "depth (nodeSegment nd bend) = n_depth nd"
  by (simp add: nodeSegment_def Let_def)

lemma childNode_depth: "childNode r nd sg m i c = (ch, c') \<Longrightarrow> n_depth ch = n_depth nd + 1"
  by (auto simp: childNode_def split: prod.splits)

lemma grow_extends:
  "n_depth nd \<le> m \<Longrightarrow>
     \<exists>new. g_segments (growRecursive r nd m g) =
            g_segments g @ nodeSegment nd (fst (rand r (- 0.35) 0.35 (g_rnd g))) # new
          \<and> g_calls (growRecursive r nd m g) = g_calls g + 1 + length new
          \<and> (\<forall>s \<in> set new. depth s \<le> m)"
  and "n_depth nd < m \<Longrightarrow>
     \<exists>new. g_segments (growBranches r nd sg m bc i g) = g_segments g @ new
          \<and> g_calls (growBranches r nd sg m bc i g) = g_calls g + length new
          \<and> (\<forall>s \<in> set new. depth s \<le> m)"
proof (induction r nd m g and r nd sg m bc i g rule: growRecursive_growBranches.induct)
  case (1 r nd maxDepth g)
  obtain bend c1 where rd: "rand r (- 0.35) 0.35 (g_rnd g) = (bend, c1)"
    by (cases "rand r (- 0.35) 0.35 (g_rnd g)")
  define sg where "sg = nodeSegment nd bend"
  define g1 where "g1 = g\<lparr>g_segments := g_segments g @ [sg], g_rnd := c1, g_calls := Suc (g_calls g)\<rparr>"
  show ?case
  proof (cases "n_depth nd \<ge> maxDepth")
    case True
    then have "growRecursive r nd maxDepth g = g1"
      using rd by (subst growRecursive.simps) (simp add: sg_def g1_def Let_def)
    moreover have "depth sg \<le> maxDepth"
      using "1.prems" by (simp add: sg_def nodeSegment_depth)
    ultimately show ?thesis
      using rd by (intro exI [of _ "[]"]) (simp add: g1_def sg_def)
  next
    case False
    obtain bc c2 where bc: "branchCount r (n_depth nd) c1 = (bc, c2)"
      by (cases "branchCount r (n_depth nd) c1")
    have eq: "growRecursive r nd maxDepth g = growBranches r nd sg maxDepth bc 0 (g1\<lparr>g_rnd := c2\<rparr>)"
      using False rd bc by (subst growRecursive.simps) (simp add: sg_def g1_def Let_def)
    from False have lt: "n_depth nd < maxDepth" by simp
    have "\<exists>new. g_segments (growBranches r nd sg maxDepth bc 0 (g1\<lparr>g_rnd := c2\<rparr>)) =
              g_segments (g1\<lparr>g_rnd := c2\<rparr>) @ new
          \<and> g_calls (growBranches r nd sg maxDepth bc 0 (g1\<lparr>g_rnd := c2\<rparr>)) =
              g_calls (g1\<lparr>g_rnd := c2\<rparr>) + length new
          \<and> (\<forall>s \<in> set new. depth s \<le> maxDepth)"
      using "1.IH" [OF rd [symmetric] sg_def g1_def False bc [symmetric] lt] .
    then obtain new where new:
      "g_segments (growBranches r nd sg maxDepth bc 0 (g1\<lparr>g_rnd := c2\<rparr>)) = g_segments g @ sg # new"
      "g_calls (growBranches r nd sg maxDepth bc 0 (g1\<lparr>g_rnd := c2\<rparr>)) = g_calls g + length (sg # new)"
      "\<forall>s \<in> set new. depth s \<le> maxDepth"
      by (auto simp: g1_def)
    from new show ?thesis
      unfolding eq using rd by (intro exI [of _ new]) (simp add: sg_def)
  qed
next
  case (2 r nd sg maxDepth bc i g)
  show ?case
  proof (cases "i < bc")
    case False
    then have "growBranches r nd sg maxDepth bc i g = g"
      by (subst growBranches.simps) simp
    then show ?thesis by simp
  next
    case True
    obtain ch c' where ch: "childNode r nd sg maxDepth i (g_rnd g) = (ch, c')"
      by (cases "childNode r nd sg maxDepth i (g_rnd g)")
    define g2 where "g2 = growRecursive r ch maxDepth (g\<lparr>g_rnd := c'\<rparr>)"
    have eq: "growBranches r nd sg maxDepth bc i g = growBranches r nd sg maxDepth bc (Suc i) g2"
      using True by (subst growBranches.simps) (simp add: ch g2_def)
    have chd: "n_depth ch \<le> maxDepth"
      using childNode_depth [OF ch] "2.prems" by simp
    have chs: "depth (nodeSegment ch b) \<le> maxDepth" for b
      using chd by (simp add: nodeSegment_depth)
    obtain new1 where new1:
      "g_segments g2 = g_segments g @ new1" "g_calls g2 = g_calls g + length new1"
      "\<forall>s \<in> set new1. depth s \<le> maxDepth"
    proof -
      obtain rest where
        "g_segments g2 = g_segments g @ nodeSegment ch (fst (rand r (- 0.35) 0.35 c')) # rest"
        "g_calls g2 = g_calls g + 1 + length rest" "\<forall>s \<in> set rest. depth s \<le> maxDepth"
        using "2.IH"(1) [OF True ch [symmetric] chd] unfolding g2_def by auto
      then show ?thesis
        using chs by (intro that [of "nodeSegment ch (fst (rand r (- 0.35) 0.35 c')) # rest"]) auto
    qed
    obtain new2 where new2:
      "g_segments (growBranches r nd sg maxDepth bc (Suc i) g2) = g_segments g2 @ new2"
      "g_calls (growBranches r nd sg maxDepth bc (Suc i) g2) = g_calls g2 + length new2"
      "\<forall>s \<in> set new2. depth s \<le> maxDepth"
      using "2.IH"(2) [OF True ch [symmetric] "2.prems"] unfolding g2_def by auto
    show ?thesis
      unfolding eq using new1 new2 by (intro exI [of _ "new1 @ new2"]) auto
  qed
qed



lemma growRecursive_leaf:
  "m \<le> n_depth nd \<Longrightarrow>
   growRecursive r nd m g =
     g\<lparr>g_segments := g_segments g @ [nodeSegment nd (fst (rand r (- 0.35) 0.35 (g_rnd g)))],
       g_rnd := Suc (g_rnd g), g_calls := Suc (g_calls g)\<rparr>"
  by (subst growRecursive.simps) (simp add: rand_def random_def Let_def)

lemma tree_grow_shape:
  "\<exists>rest. g_segments (tree_grow e c) =
       nodeSegment (rootNode e (rng e c * 1000)) (fst (rand (rng e) (- 0.35) 0.35 (Suc c))) # rest
     \<and> g_calls (tree_grow e c) = 1 + length rest
     \<and> (\<forall>s \<in> set rest. depth s \<le> 7)"
proof -
  have "n_depth (rootNode e (rng e c * 1000)) \<le> 7"
    by (simp add: rootNode_def)
  from grow_extends(1) [OF this, of "rng e" "\<lparr>g_segments = [], g_rnd = Suc c, g_calls = 0\<rparr>"]
  show ?thesis
    by (simp add: tree_grow_def rand_def random_def)
qed

text \<open>
  C3: every invocation of \<^verbatim>\<open>_growRecursive\<close> on a node whose depth is at most
  \<open>maxDepth\<close> keeps the segments already there, appends the node's own segment first
  (before anything a recursive call appends), appends as many segments as invocations
  are made, and only segments of depth at most \<open>maxDepth\<close>; at depth \<open>maxDepth\<close> or
  more it makes no further invocation. So for the tree that \<^verbatim>\<open>tree.init\<close>
  generates, with \<open>maxDepth\<close> 7, the number of segments is the number of invocations
  and every segment's depth is at most 7, before and after sorting.
\<close>

theorem growRecursive_one_segment_per_call:
  "(n_depth nd \<le> m \<longrightarrow>
      take (length (g_segments g)) (g_segments (growRecursive r nd m g)) = g_segments g
    \<and> g_segments (growRecursive r nd m g) ! length (g_segments g) =
        nodeSegment nd (fst (rand r (- 0.35) 0.35 (g_rnd g)))
    \<and> length (g_segments (growRecursive r nd m g)) + g_calls g =
        length (g_segments g) + g_calls (growRecursive r nd m g)
    \<and> (\<forall>s \<in> set (drop (length (g_segments g)) (g_segments (growRecursive r nd m g))).
          depth s \<le> m))
   \<and> (m \<le> n_depth nd \<longrightarrow> g_calls (growRecursive r nd m g) = g_calls g + 1)
   \<and> length (g_segments (tree_grow e c)) = g_calls (tree_grow e c)
   \<and> 0 < g_calls (tree_grow e c)
   \<and> (\<forall>s \<in> set (g_segments (tree_grow e c)). depth s \<le> 7)
   \<and> length (segments (fst (tree_init e c))) = g_calls (tree_grow e c)
   \<and> (\<forall>s \<in> set (segments (fst (tree_init e c))). depth s \<le> 7)"
proof -
  have a: "take (length (g_segments g)) (g_segments (growRecursive r nd m g)) = g_segments g
    \<and> g_segments (growRecursive r nd m g) ! length (g_segments g) =
        nodeSegment nd (fst (rand r (- 0.35) 0.35 (g_rnd g)))
    \<and> length (g_segments (growRecursive r nd m g)) + g_calls g =
        length (g_segments g) + g_calls (growRecursive r nd m g)
    \<and> (\<forall>s \<in> set (drop (length (g_segments g)) (g_segments (growRecursive r nd m g))).
          depth s \<le> m)" if le: "n_depth nd \<le> m"
  proof -
    obtain new where new:
      "g_segments (growRecursive r nd m g) =
         g_segments g @ nodeSegment nd (fst (rand r (- 0.35) 0.35 (g_rnd g))) # new"
      "g_calls (growRecursive r nd m g) = g_calls g + 1 + length new"
      "\<forall>s \<in> set new. depth s \<le> m"
      using grow_extends(1) [OF le, of r g] by auto
    have "depth (nodeSegment nd (fst (rand r (- 0.35) 0.35 (g_rnd g)))) \<le> m"
      using le by (simp add: nodeSegment_depth)
    with new show ?thesis by (simp add: nth_append)
  qed
  have b: "g_calls (growRecursive r nd m g) = g_calls g + 1" if "m \<le> n_depth nd"
    using growRecursive_leaf [OF that, of r g] by simp
  obtain rest where rest:
    "g_segments (tree_grow e c) =
       nodeSegment (rootNode e (rng e c * 1000)) (fst (rand (rng e) (- 0.35) 0.35 (Suc c))) # rest"
    "g_calls (tree_grow e c) = 1 + length rest" "\<forall>s \<in> set rest. depth s \<le> 7"
    using tree_grow_shape [of e c] by auto
  have d0: "depth (nodeSegment (rootNode e (rng e c * 1000)) b) \<le> 7" for b
    by (simp add: nodeSegment_depth rootNode_def)
  have c1: "length (g_segments (tree_grow e c)) = g_calls (tree_grow e c)"
    and c2: "0 < g_calls (tree_grow e c)"
    and c3: "\<forall>s \<in> set (g_segments (tree_grow e c)). depth s \<le> 7"
    using rest d0 by auto
  have c4: "length (segments (fst (tree_init e c))) = g_calls (tree_grow e c)"
    and c5: "\<forall>s \<in> set (segments (fst (tree_init e c))). depth s \<le> 7"
    using c1 c3 by (simp_all add: tree_init_def Let_def)
  from a b c1 c2 c3 c4 c5 show ?thesis by blast
qed

text \<open>
  With maximum depth 1 and every draw 0.5, the root makes two children: three
  invocations, three segments, of depths 0, 1 and 1.
\<close>

theorem growRecursive_one_segment_per_call_witness:
  "n_depth (rootNode env0 500) \<le> 1
   \<and> g_calls (growRecursive (\<lambda>n. 0.5) (rootNode env0 500) 1
        \<lparr>g_segments = [], g_rnd = 0, g_calls = 0\<rparr>) = 3
   \<and> map depth (g_segments (growRecursive (\<lambda>n. 0.5) (rootNode env0 500) 1
        \<lparr>g_segments = [], g_rnd = 0, g_calls = 0\<rparr>)) = [0, 1, 1]
   \<and> length (segments (fst (tree_init env0 0))) = g_calls (tree_grow env0 0)
   \<and> 0 < g_calls (tree_grow env0 0)"
  using growRecursive_one_segment_per_call
    [of "rootNode env0 500" 1 "\<lparr>g_segments = [], g_rnd = 0, g_calls = 0\<rparr>" "\<lambda>n. 0.5" env0 0]
  by (simp add: env0_def rand_def random_def rootNode_def branchCount_def childNode_def Let_def
      nodeSegment_def cubicBezier_def growRecursive.simps growBranches.simps)

section \<open>Revealing the tree\<close>












section \<open>The keep probability\<close>

lemma keepProb_mono: "l1 \<le> l2 \<Longrightarrow> keepProb l1 \<le> keepProb l2"
  unfolding keepProb_def by (rule clamp_mono) simp

lemma keepProb_zero: "l \<le> 0.15 \<Longrightarrow> keepProb l = 0"
  by (simp add: keepProb_def clamp_def max_def min_def mult_le_0_iff)

lemma keepProb_one: "0.775 \<le> l \<Longrightarrow> keepProb l = 1"
  by (simp add: keepProb_def clamp_def max_def min_def)

lemma sampleCell_defined:
  assumes "pixelAt (imgData e) ((y * W + x) * 4) = Some R"
    and "pixelAt (imgData e) ((y * W + x) * 4 + 1) = Some G"
    and "pixelAt (imgData e) ((y * W + x) * 4 + 2) = Some B"
  shows "sampleCell e W y x (pts, c) =
     (if rng e c < keepProb (luminance R G B)
      then pts @ [\<lparr>tp_x = x, tp_y = y, tp_lum = luminance R G B\<rparr>] else pts, Suc c)"
  using assms by (simp add: sampleCell_def lumAt_def Let_def random_def)

text \<open>
  C5: the keep probability is \<open>clamp ((lum - 0.15) * 1.6) 0 1\<close>, with the luminance
  \<open>(0.2126 R + 0.7152 G + 0.0722 B) / 255\<close> of the cell's pixel; it does not decrease
  when the luminance grows, it is 0 up to luminance 0.15 and 1 from luminance 0.775 on.
  A grid cell whose three bytes are read is kept exactly when the draw is below that
  probability.
\<close>

theorem keepProb_clamped_monotone:
  "keepProb l = clamp ((l - 0.15) * 1.6) 0 1
   \<and> (l1 \<le> l2 \<longrightarrow> keepProb l1 \<le> keepProb l2)
   \<and> (l \<le> 0.15 \<longrightarrow> keepProb l = 0)
   \<and> (0.775 \<le> l \<longrightarrow> keepProb l = 1)
   \<and> luminance R G B = (0.2126 * R + 0.7152 * G + 0.0722 * B) / 255
   \<and> (pixelAt (imgData e) ((y * W + x) * 4) = Some R
      \<and> pixelAt (imgData e) ((y * W + x) * 4 + 1) = Some G
      \<and> pixelAt (imgData e) ((y * W + x) * 4 + 2) = Some B \<longrightarrow>
        sampleCell e W y x (pts, c) =
          (if rng e c < keepProb (luminance R G B)
           then pts @ [\<lparr>tp_x = x, tp_y = y, tp_lum = luminance R G B\<rparr>] else pts, Suc c))"
  using keepProb_mono [of l1 l2] keepProb_zero [of l] keepProb_one [of l]
    sampleCell_defined [of e y W x R G B pts c]
  by (simp add: keepProb_def luminance_def)

text \<open>Some values, and the white pixel at the origin, which the draw 0.9 keeps.\<close>

theorem keepProb_clamped_monotone_witness:
  "keepProb 0.1 = 0 \<and> keepProb 0.15 = 0 \<and> keepProb 0.775 = 1 \<and> keepProb 1 = 1
   \<and> keepProb 0.4 = 0.4 \<and> keepProb 0.15 \<le> keepProb 0.4
   \<and> luminance 255 255 255 = 1
   \<and> sampleCell envF 11.6 0 0 ([], 0) = ([\<lparr>tp_x = 0, tp_y = 0, tp_lum = 1\<rparr>], 1)"
  using keepProb_clamped_monotone [of "0.1" "0.15" "0.4" 255 255 255 envF 0 "11.6" 0 "[]" 0]
    keepProb_clamped_monotone [of "0.15" "0.15" "0.4" 255 255 255 envF 0 "11.6" 0 "[]" 0]
    keepProb_clamped_monotone [of "0.775" "0.15" "0.4" 255 255 255 envF 0 "11.6" 0 "[]" 0]
    keepProb_clamped_monotone [of 1 "0.15" "0.4" 255 255 255 envF 0 "11.6" 0 "[]" 0]
  by (simp add: envF_def pixelAt_def keepProb_def clamp_def luminance_def)

section \<open>Building once\<close>

lemma tryBuildTargets_built: "builtOnce fp \<Longrightarrow> tryBuildTargets e fp c = (fp, c)"
  by (simp add: tryBuildTargets_def)

lemma tryBuildTargets_sets_flags:
  "\<not> builtOnce fp \<Longrightarrow> ok (face (images e)) \<Longrightarrow> img (face (images e)) \<noteq> None \<Longrightarrow>
   builtOnce (fst (tryBuildTargets e fp c)) \<and> ready (fst (tryBuildTargets e fp c))
   \<and> particles (fst (tryBuildTargets e fp c)) = []"
  by (simp add: tryBuildTargets_def Let_def split: prod.splits)

text \<open>
  C7: a call of \<^verbatim>\<open>tryBuildTargets\<close> on a portrait that is already built changes
  nothing and makes no draw; a call that gets past both guards sets \<open>builtOnce\<close> and
  \<open>ready\<close>; so once a call has built the targets, every later call, whatever the
  inputs then are, returns the portrait it was given.
\<close>

theorem tryBuildTargets_idempotent:
  "(builtOnce fp \<longrightarrow> tryBuildTargets e fp c = (fp, c))
   \<and> (\<not> builtOnce fp \<and> ok (face (images e)) \<and> img (face (images e)) \<noteq> None \<longrightarrow>
        builtOnce (fst (tryBuildTargets e fp c)) \<and> ready (fst (tryBuildTargets e fp c)))
   \<and> (builtOnce (fst (tryBuildTargets e fp c)) \<longrightarrow>
        tryBuildTargets e' (fst (tryBuildTargets e fp c)) c' = (fst (tryBuildTargets e fp c), c')
        \<and> tryBuildTargets e'' (fst (tryBuildTargets e' (fst (tryBuildTargets e fp c)) c')) c'' =
            (fst (tryBuildTargets e fp c), c''))"
  using tryBuildTargets_built [of fp e c] tryBuildTargets_sets_flags [of fp e c]
    tryBuildTargets_built [of "fst (tryBuildTargets e fp c)" e' c']
    tryBuildTargets_built [of "fst (tryBuildTargets e fp c)" e'' c'']
  by simp

text \<open>
  The first build on the viewport of width 20, and a later call with other inputs.
\<close>

theorem tryBuildTargets_idempotent_witness:
  "\<not> builtOnce facePortrait_init
   \<and> builtOnce (fst (tryBuildTargets envF facePortrait_init 0))
   \<and> tryBuildTargets env0 (fst (tryBuildTargets envF facePortrait_init 0)) 5 =
       (fst (tryBuildTargets envF facePortrait_init 0), 5)"
  using tryBuildTargets_idempotent [of facePortrait_init envF 0 env0 5 env0 5]
  by (simp add: facePortrait_init_def envF_def)

section \<open>The synthetic fallback\<close>

lemma syntheticPoint_eq:
  "syntheticPoint r W H c =
     (\<lparr>tp_x = of_int \<lfloor>r c * W\<rfloor>, tp_y = of_int \<lfloor>r (c + 1) * H\<rfloor>,
       tp_lum = 0.2 + r (c + 2) * 0.7\<rparr>, c + 3)"
  by (simp add: syntheticPoint_def randi_def rand_def random_def)

lemma synthetic_closed:
  "k \<le> 900 \<Longrightarrow>
   synthetic r W H k (pts, c) =
     (pts @ map (\<lambda>j. fst (syntheticPoint r W H (c + 3 * j))) [0..<900 - k], c + 3 * (900 - k))"
proof (induction "900 - k" arbitrary: k pts c)
  case 0
  then have "k = 900" by simp
  then show ?case by (subst synthetic.simps) simp
next
  case (Suc n)
  then have k: "k < 900" and n: "n = 900 - Suc k" and le: "Suc k \<le> 900" by simp_all
  have d: "900 - k = Suc n" using Suc.hyps(2) by simp
  have "synthetic r W H k (pts, c) =
      synthetic r W H (Suc k) (pts @ [fst (syntheticPoint r W H c)], c + 3)"
    using k by (subst synthetic.simps) (simp add: syntheticPoint_eq)
  also have "\<dots> = ((pts @ [fst (syntheticPoint r W H c)]) @
      map (\<lambda>j. fst (syntheticPoint r W H (c + 3 + 3 * j))) [0..<900 - Suc k],
      c + 3 + 3 * (900 - Suc k))"
    by (rule Suc.hyps(1) [OF n le])
  also have "\<dots> = (pts @ map (\<lambda>j. fst (syntheticPoint r W H (c + 3 * j))) [0..<900 - k],
      c + 3 * (900 - k))"
    unfolding d n [symmetric] by (simp add: map_upt_Suc add.assoc del: upt_Suc)
  finally show ?case .
qed

lemma synthetic_range:
  assumes "0 \<le> u" "u < 1" "0 < W"
  shows "0 \<le> (of_int \<lfloor>u * W\<rfloor> :: real) \<and> of_int \<lfloor>u * W\<rfloor> < W"
proof -
  have "0 \<le> u * W" using assms by simp
  then have a: "0 \<le> (of_int \<lfloor>u * W\<rfloor> :: real)" by simp
  have "of_int \<lfloor>u * W\<rfloor> \<le> u * W" by simp
  also have "u * W < W" using assms by simp
  finally show ?thesis using a by simp
qed

lemma tryBuildTargets_points:
  assumes "\<not> builtOnce fp" "ok (face (images e))" "img (face (images e)) \<noteq> None"
  shows "targetPoints (fst (tryBuildTargets e fp c)) =
     (let W = min 420 (state_w e * 0.58);
          sampled = sampleRows e W W 0 ([], c)
      in if length (fst sampled) < 600
         then fst sampled @
              map (\<lambda>j. fst (syntheticPoint (rng e) W W (snd sampled + 3 * j))) [0..<900]
         else fst sampled)"
proof -
  let ?W = "min 420 (state_w e * 0.58)"
  obtain pts c1 where sr: "sampleRows e ?W ?W 0 ([], c) = (pts, c1)"
    by (cases "sampleRows e ?W ?W 0 ([], c)")
  have syn: "synthetic (rng e) ?W ?W 0 (pts, c1) =
     (pts @ map (\<lambda>j. fst (syntheticPoint (rng e) ?W ?W (c1 + 3 * j))) [0..<900], c1 + 3 * 900)"
    using synthetic_closed [of 0 "rng e" ?W ?W pts c1] by simp
  show ?thesis
    using assms sr syn by (auto simp: tryBuildTargets_def Let_def)
qed


text \<open>
  C6: take a call of \<^verbatim>\<open>tryBuildTargets\<close> that gets past both guards, \<open>W\<close> the
  side of the sampled square and \<open>sampled\<close> the points the grid walk keeps. If there
  are fewer than 600 of them (none included), the targets are the sampled points, all of
  them and in their order, followed by exactly 900 synthetic points; the \<open>j\<close>-th one takes
  three fresh draws: \<open>floor (u * W)\<close> for each coordinate and \<open>0.2 + u * 0.7\<close> for the
  luminance, so for draws in [0, 1) it lies inside the sampled square with a luminance in
  [0.2, 0.9]. If there are 600 or more sampled points, the targets are the sampled
  points and nothing else.
\<close>

theorem synthetic_fallback_900:
  assumes "\<not> builtOnce fp" and "ok (face (images e))" and "img (face (images e)) \<noteq> None"
    and "W = min 420 (state_w e * 0.58)"
    and "sampled = fst (sampleRows e W W 0 ([], c))"
    and "c1 = snd (sampleRows e W W 0 ([], c))"
    and "pts = targetPoints (fst (tryBuildTargets e fp c))"
  shows "(length sampled < 600 \<longrightarrow>
            length pts = length sampled + 900
          \<and> take (length sampled) pts = sampled
          \<and> (\<forall>j < 900. pts ! (length sampled + j) =
                \<lparr>tp_x = of_int \<lfloor>rng e (c1 + 3 * j) * W\<rfloor>,
                  tp_y = of_int \<lfloor>rng e (c1 + 3 * j + 1) * W\<rfloor>,
                  tp_lum = 0.2 + rng e (c1 + 3 * j + 2) * 0.7\<rparr>)
          \<and> ((\<forall>n. 0 \<le> rng e n \<and> rng e n < 1) \<and> 0 < W \<longrightarrow>
                (\<forall>j < 900. 0 \<le> tp_x (pts ! (length sampled + j))
                         \<and> tp_x (pts ! (length sampled + j)) < W
                         \<and> 0 \<le> tp_y (pts ! (length sampled + j))
                         \<and> tp_y (pts ! (length sampled + j)) < W
                         \<and> 0.2 \<le> tp_lum (pts ! (length sampled + j))
                         \<and> tp_lum (pts ! (length sampled + j)) \<le> 0.9)))
       \<and> (600 \<le> length sampled \<longrightarrow> pts = sampled)"
proof -
  have pts: "pts =
     (if length sampled < 600
      then sampled @ map (\<lambda>j. fst (syntheticPoint (rng e) W W (c1 + 3 * j))) [0..<900]
      else sampled)"
    using tryBuildTargets_points [OF assms(1-3), of c] assms(4-7) by (simp add: Let_def)
  have nth: "pts ! (length sampled + j) =
      \<lparr>tp_x = of_int \<lfloor>rng e (c1 + 3 * j) * W\<rfloor>,
        tp_y = of_int \<lfloor>rng e (c1 + 3 * j + 1) * W\<rfloor>,
        tp_lum = 0.2 + rng e (c1 + 3 * j + 2) * 0.7\<rparr>"
    if "length sampled < 600" "j < 900" for j
    using that by (simp add: pts syntheticPoint_eq)
  have rg: "0 \<le> tp_x (pts ! (length sampled + j)) \<and> tp_x (pts ! (length sampled + j)) < W
          \<and> 0 \<le> tp_y (pts ! (length sampled + j)) \<and> tp_y (pts ! (length sampled + j)) < W
          \<and> 0.2 \<le> tp_lum (pts ! (length sampled + j))
          \<and> tp_lum (pts ! (length sampled + j)) \<le> 0.9"
    if "length sampled < 600" "j < 900" "\<forall>n. 0 \<le> rng e n \<and> rng e n < 1" "0 < W" for j
  proof -
    have u: "0 \<le> rng e n" "rng e n < 1" for n using that(3) by simp_all
    show ?thesis
      unfolding nth [OF that(1,2)]
      using synthetic_range [OF u [of "c1 + 3 * j"] that(4)]
        synthetic_range [OF u [of "c1 + 3 * j + 1"] that(4)] u [of "c1 + 3 * j + 2"]
      by simp
  qed
  have len: "length pts = length sampled + 900" "take (length sampled) pts = sampled"
    if "length sampled < 600"
    using that by (simp_all add: pts)
  have ge: "pts = sampled" if "600 \<le> length sampled"
    using that by (simp add: pts)
  from len nth rg ge show ?thesis by blast
qed

text \<open>
  On the viewport of width 20 the grid has nine cells, of which only the white pixel at
  the origin is kept.
\<close>

lemma sampleRows_envF: "sampleRows envF 11.6 11.6 0 ([], 0) = ([\<lparr>tp_x = 0, tp_y = 0, tp_lum = 1\<rparr>], 9)"
  by (simp add: sampleRows.simps sampleRow.simps sampleCell_def sampleStep_def clamp_def
      lumAt_def pixelAt_def luminance_def keepProb_def random_def envF_def Let_def)

text \<open>
  On the white canvas the side of the square is 420 and the step is 5: every one of the
  84 times 84 cells is kept.
\<close>

lemma pixelAt_white: "pixelAt (imgData envW) (real n) = Some 255"
  by (simp add: pixelAt_def envW_def)

lemma sampleCell_white:
  "sampleCell envW 420 (real j) (real k) (pts, c) =
     (pts @ [\<lparr>tp_x = real k, tp_y = real j, tp_lum = 1\<rparr>], Suc c)"
proof -
  have i: "(real j * 420 + real k) * 4 = real ((j * 420 + k) * 4)" by simp
  have i1: "(real j * 420 + real k) * 4 + 1 = real ((j * 420 + k) * 4 + 1)" by simp
  have i2: "(real j * 420 + real k) * 4 + 2 = real ((j * 420 + k) * 4 + 2)" by simp
  have l: "lumAt (imgData envW) ((real j * 420 + real k) * 4) = Some 1"
    unfolding lumAt_def i1 i2 unfolding i pixelAt_white by (simp add: luminance_def)
  have k: "keepProb 1 = 1" by (simp add: keepProb_def clamp_def)
  have r: "rng envW c = 0.9" by (simp add: envW_def)
  show ?thesis
    using l by (simp add: sampleCell_def Let_def random_def k r)
qed

lemma sampleStep_420: "sampleStep 420 = 5"
  by (simp add: sampleStep_def clamp_def)

lemma sampleRow_white:
  "k \<le> 84 \<Longrightarrow>
   length (fst (sampleRow envW 420 (real j) (real (5 * k)) (pts, c))) = length pts + (84 - k)"
proof (induction "84 - k" arbitrary: k pts c)
  case 0
  then have "\<not> real (5 * k) < 420" by simp
  then have "sampleRow envW 420 (real j) (real (5 * k)) (pts, c) = (pts, c)"
    by (subst sampleRow.simps) simp
  with 0 show ?case by simp
next
  case (Suc n)
  then have lt: "real (5 * k) < 420" and n: "n = 84 - Suc k" and le: "Suc k \<le> 84" by simp_all
  have nx: "real (5 * k) + sampleStep 420 = real (5 * Suc k)"
    by (simp add: sampleStep_420)
  have "sampleRow envW 420 (real j) (real (5 * k)) (pts, c) =
      sampleRow envW 420 (real j) (real (5 * Suc k))
        (pts @ [\<lparr>tp_x = real (5 * k), tp_y = real j, tp_lum = 1\<rparr>], Suc c)"
    using lt by (subst sampleRow.simps) (simp only: nx sampleCell_white if_True)
  then show ?case
    using Suc.hyps(1) [OF n le, of "pts @ [\<lparr>tp_x = real (5 * k), tp_y = real j, tp_lum = 1\<rparr>]" "Suc c"]
      Suc.hyps(2) by simp
qed

lemma sampleRows_white:
  "j \<le> 84 \<Longrightarrow>
   length (fst (sampleRows envW 420 420 (real (5 * j)) (pts, c))) = length pts + 84 * (84 - j)"
proof (induction "84 - j" arbitrary: j pts c)
  case 0
  then have "\<not> real (5 * j) < 420" by simp
  then have "sampleRows envW 420 420 (real (5 * j)) (pts, c) = (pts, c)"
    by (subst sampleRows.simps) simp
  with 0 show ?case by simp
next
  case (Suc n)
  then have lt: "real (5 * j) < 420" and n: "n = 84 - Suc j" and le: "Suc j \<le> 84" by simp_all
  have nx: "real (5 * j) + sampleStep 420 = real (5 * Suc j)"
    by (simp add: sampleStep_420)
  obtain row c' where row: "sampleRow envW 420 (real (5 * j)) 0 (pts, c) = (row, c')"
    by (cases "sampleRow envW 420 (real (5 * j)) 0 (pts, c)")
  have rl: "length row = length pts + 84"
    using sampleRow_white [of 0 "5 * j" pts c] row by simp
  have "sampleRows envW 420 420 (real (5 * j)) (pts, c) =
      sampleRows envW 420 420 (real (5 * Suc j)) (row, c')"
    using lt by (subst sampleRows.simps) (simp only: nx row if_True)
  then show ?case
    using Suc.hyps(1) [OF n le, of row c'] Suc.hyps(2) rl by simp
qed

lemma sampled_white: "length (fst (sampleRows envW 420 420 0 ([], 0))) = 7056"
  using sampleRows_white [of 0 "[]" 0] by simp

text \<open>
  The build on the viewport of width 20: one sampled point, then 900 synthetic ones, the
  first of them at (10, 10) with luminance 0.83. The build on the white canvas: the 7056
  sampled points and no synthetic one.
\<close>

theorem synthetic_fallback_900_witness:
  "length (targetPoints (fst (tryBuildTargets envF facePortrait_init 0))) = 901
   \<and> take 1 (targetPoints (fst (tryBuildTargets envF facePortrait_init 0))) =
       [\<lparr>tp_x = 0, tp_y = 0, tp_lum = 1\<rparr>]
   \<and> targetPoints (fst (tryBuildTargets envF facePortrait_init 0)) ! 1 =
       \<lparr>tp_x = 10, tp_y = 10, tp_lum = 0.83\<rparr>
   \<and> tp_x (targetPoints (fst (tryBuildTargets envF facePortrait_init 0)) ! 900) < 11.6
   \<and> targetPoints (fst (tryBuildTargets envW facePortrait_init 0)) =
       fst (sampleRows envW 420 420 0 ([], 0))
   \<and> length (targetPoints (fst (tryBuildTargets envW facePortrait_init 0))) = 7056"
proof -
  let ?pts = "targetPoints (fst (tryBuildTargets envF facePortrait_init 0))"
  have h1: "\<not> builtOnce facePortrait_init" by (simp add: facePortrait_init_def)
  have h2: "ok (face (images envF))" and h3: "img (face (images envF)) \<noteq> None"
    by (simp_all add: envF_def)
  have h4: "11.6 = min 420 (state_w envF * 0.58)" by (simp add: envF_def)
  have h5: "[\<lparr>tp_x = 0, tp_y = 0, tp_lum = 1\<rparr>] = fst (sampleRows envF 11.6 11.6 0 ([], 0))"
    and h6: "9 = snd (sampleRows envF 11.6 11.6 0 ([], 0))"
    using sampleRows_envF by simp_all
  have lt: "length [\<lparr>tp_x = 0, tp_y = 0, tp_lum = 1::real\<rparr>] < 600" by simp
  note t = synthetic_fallback_900 [OF h1 h2 h3 h4 h5 h6 refl]
  note c = mp [OF conjunct1 [OF t] lt]
  from conjunct1 [OF c] have len: "length ?pts = 901" by simp
  from conjunct1 [OF conjunct2 [OF c]]
  have tk: "take 1 ?pts = [\<lparr>tp_x = 0, tp_y = 0, tp_lum = 1\<rparr>]" by simp
  note n = conjunct1 [OF conjunct2 [OF conjunct2 [OF c]]]
  from n [rule_format, of 0]
  have n1: "?pts ! 1 = \<lparr>tp_x = 10, tp_y = 10, tp_lum = 0.83\<rparr>"
    by (simp add: envF_def)
  have pre: "(\<forall>n. 0 \<le> rng envF n \<and> rng envF n < 1) \<and> 0 < (11.6::real)"
    by (simp add: envF_def)
  note g = mp [OF conjunct2 [OF conjunct2 [OF conjunct2 [OF c]]] pre]
  from g [rule_format, of 899]
  have n900: "tp_x (?pts ! 900) < 11.6" by simp
  have w2: "ok (face (images envW))" and w3: "img (face (images envW)) \<noteq> None"
    by (simp_all add: envW_def)
  have w4: "420 = min 420 (state_w envW * 0.58)" by (simp add: envW_def)
  have ge: "600 \<le> length (fst (sampleRows envW 420 420 0 ([], 0)))"
    by (simp add: sampled_white)
  note big = mp [OF conjunct2 [OF synthetic_fallback_900 [OF h1 w2 w3 w4 refl refl refl]] ge]
  then have bl: "length (targetPoints (fst (tryBuildTargets envW facePortrait_init 0))) = 7056"
    by (simp add: sampled_white)
  from len tk n1 n900 big bl show ?thesis by blast
qed

section \<open>Particles\<close>

lemma updateParticle_alpha:
  "p_lum (fst (updateParticle e sc i p c)) = p_lum p
   \<and> delay (fst (updateParticle e sc i p c)) = delay p
   \<and> p_a (fst (updateParticle e sc i p c)) =
       (if timeIn sc - delay p < 0 then p_a p else lerp (p_a p) (targetA (p_lum p)) 0.06)"
  by (simp add: updateParticle_def Let_def split: prod.splits option.splits)

lemma lerp_no_overshoot:
  "0 \<le> t \<Longrightarrow> t \<le> 1 \<Longrightarrow> \<bar>lerp a b t - b\<bar> \<le> \<bar>a - b\<bar>"
proof -
  assume t: "0 \<le> t" "t \<le> 1"
  have "lerp a b t - b = (1 - t) * (a - b)"
    by (simp add: lerp_def algebra_simps)
  then have "\<bar>lerp a b t - b\<bar> = (1 - t) * \<bar>a - b\<bar>"
    using t by (simp add: abs_mult)
  also have "\<dots> \<le> 1 * \<bar>a - b\<bar>"
    using t by (intro mult_right_mono) simp_all
  finally show ?thesis by simp
qed

lemma updateParticles_length_aux:
  "updateParticles e sc k ps c = (ps', c') \<Longrightarrow> length ps' = length ps"
  by (induction ps arbitrary: k c ps' c') (auto split: prod.splits)

lemma updateParticles_length:
  "length (fst (updateParticles e sc k ps c)) = length ps"
  using updateParticles_length_aux [of e sc k ps c] by (cases "updateParticles e sc k ps c") simp

lemma updateParticles_nth:
  "i < length ps \<Longrightarrow>
   \<exists>c'. fst (updateParticles e sc k ps c) ! i = fst (updateParticle e sc (k + i) (ps ! i) c')"
proof (induction ps arbitrary: k c i)
  case Nil
  then show ?case by simp
next
  case (Cons p ps)
  obtain p' c1 where p': "updateParticle e sc k p c = (p', c1)"
    by (cases "updateParticle e sc k p c")
  obtain ps' c2 where ps': "updateParticles e sc (Suc k) ps c1 = (ps', c2)"
    by (cases "updateParticles e sc (Suc k) ps c1")
  show ?case
  proof (cases i)
    case 0
    then show ?thesis using p' ps' by (intro exI [of _ c]) simp
  next
    case (Suc j)
    with Cons.prems have "j < length ps" by simp
    from Cons.IH [OF this, of "Suc k" c1] obtain c' where
      "fst (updateParticles e sc (Suc k) ps c1) ! j = fst (updateParticle e sc (Suc k + j) (ps ! j) c')"
      by blast
    then show ?thesis using p' ps' Suc by (intro exI [of _ c']) simp
  qed
qed

lemma spawnLoop_shape:
  "\<exists>new. particles (fst (spawnLoop e n i (fp, c))) = particles fp @ new
        \<and> length new = n - i
        \<and> targetPoints (fst (spawnLoop e n i (fp, c))) = targetPoints fp
        \<and> ready (fst (spawnLoop e n i (fp, c))) = ready fp
        \<and> builtOnce (fst (spawnLoop e n i (fp, c))) = builtOnce fp"
proof (induction "n - i" arbitrary: i fp c)
  case 0
  then have "\<not> i < n" by simp
  then have "spawnLoop e n i (fp, c) = (fp, c)"
    by (subst spawnLoop.simps) simp
  with 0 show ?case by simp
next
  case (Suc m)
  then have lt: "i < n" and m: "m = n - Suc i" by simp_all
  obtain p c' where p: "spawnParticle e fp (targetPoints fp ! i) c = (p, c')"
    by (cases "spawnParticle e fp (targetPoints fp ! i) c")
  have eq: "spawnLoop e n i (fp, c) = spawnLoop e n (Suc i) (fp\<lparr>particles := particles fp @ [p]\<rparr>, c')"
    using lt p by (subst spawnLoop.simps) simp
  from Suc.hyps(1) [OF m, of "fp\<lparr>particles := particles fp @ [p]\<rparr>" c']
  obtain new where new:
    "particles (fst (spawnLoop e n (Suc i) (fp\<lparr>particles := particles fp @ [p]\<rparr>, c'))) =
       particles fp @ p # new"
    "length new = n - Suc i"
    "targetPoints (fst (spawnLoop e n (Suc i) (fp\<lparr>particles := particles fp @ [p]\<rparr>, c'))) =
       targetPoints fp"
    "ready (fst (spawnLoop e n (Suc i) (fp\<lparr>particles := particles fp @ [p]\<rparr>, c'))) = ready fp"
    "builtOnce (fst (spawnLoop e n (Suc i) (fp\<lparr>particles := particles fp @ [p]\<rparr>, c'))) =
       builtOnce fp"
    by auto
  show ?case
    unfolding eq using new lt by (intro exI [of _ "p # new"]) auto
qed

lemma spawnBatch_shape:
  "\<exists>new. particles (fst (spawnBatch e maxNew fp c)) = particles fp @ new
        \<and> length new =
            (if ready fp \<and> length (particles fp) < length (targetPoints fp)
             then min (length (targetPoints fp)) (length (particles fp) + maxNew)
                  - length (particles fp)
             else 0)
        \<and> targetPoints (fst (spawnBatch e maxNew fp c)) = targetPoints fp
        \<and> ready (fst (spawnBatch e maxNew fp c)) = ready fp
        \<and> builtOnce (fst (spawnBatch e maxNew fp c)) = builtOnce fp"
proof (cases "ready fp \<and> length (particles fp) < length (targetPoints fp)")
  case False
  then have "spawnBatch e maxNew fp c = (fp, c)"
    by (auto simp: spawnBatch_def Let_def)
  with False show ?thesis by (intro exI [of _ "[]"]) auto
next
  case True
  then have "spawnBatch e maxNew fp c =
      spawnLoop e (min (length (targetPoints fp)) (length (particles fp) + maxNew))
        (length (particles fp)) (fp, c)"
    by (simp add: spawnBatch_def Let_def)
  with True show ?thesis
    using spawnLoop_shape [of e "min (length (targetPoints fp)) (length (particles fp) + maxNew)"
        "length (particles fp)" fp c]
    by simp
qed


lemma tryBuildTargets_cases:
  "tryBuildTargets e fp c = (fp, c)
   \<or> (\<not> builtOnce fp \<and> builtOnce (fst (tryBuildTargets e fp c))
      \<and> ready (fst (tryBuildTargets e fp c))
      \<and> particles (fst (tryBuildTargets e fp c)) = []
      \<and> 600 \<le> length (targetPoints (fst (tryBuildTargets e fp c))))"
proof (cases "\<not> builtOnce fp \<and> ok (face (images e)) \<and> img (face (images e)) \<noteq> None")
  case False
  then show ?thesis by (auto simp: tryBuildTargets_def)
next
  case True
  then have a: "\<not> builtOnce fp" and b: "ok (face (images e))" and c: "img (face (images e)) \<noteq> None"
    by simp_all
  have "600 \<le> length (targetPoints (fst (tryBuildTargets e fp c)))"
    unfolding tryBuildTargets_points [OF a b c] by (simp add: Let_def)
  with tryBuildTargets_sets_flags [OF a b c, of c] a show ?thesis by simp
qed

lemma inv_tryBuildTargets:
  "portrait_inv fp \<Longrightarrow> portrait_inv (fst (tryBuildTargets e fp c))"
  using tryBuildTargets_cases [of e fp c] by (auto simp: portrait_inv_def)

lemma inv_spawnBatch:
  assumes "portrait_inv fp"
  shows "portrait_inv (fst (spawnBatch e maxNew fp c))
     \<and> length (particles fp) \<le> length (particles (fst (spawnBatch e maxNew fp c)))
     \<and> length (particles (fst (spawnBatch e maxNew fp c))) \<le> length (particles fp) + maxNew
     \<and> length (particles (fst (spawnBatch e maxNew fp c))) \<le>
         length (targetPoints (fst (spawnBatch e maxNew fp c)))
     \<and> take (length (particles fp)) (particles (fst (spawnBatch e maxNew fp c))) = particles fp"
proof -
  obtain new where new:
    "particles (fst (spawnBatch e maxNew fp c)) = particles fp @ new"
    "length new =
       (if ready fp \<and> length (particles fp) < length (targetPoints fp)
        then min (length (targetPoints fp)) (length (particles fp) + maxNew) - length (particles fp)
        else 0)"
    "targetPoints (fst (spawnBatch e maxNew fp c)) = targetPoints fp"
    "ready (fst (spawnBatch e maxNew fp c)) = ready fp"
    "builtOnce (fst (spawnBatch e maxNew fp c)) = builtOnce fp"
    using spawnBatch_shape [of e maxNew fp c] by blast
  show ?thesis
    using assms new by (auto simp: portrait_inv_def split: if_splits)
qed

lemma facePortrait_update_fields:
  "particles (fst (facePortrait_update e sc fp c)) =
     fst (updateParticles e sc 0
       (particles (fst (spawnBatch e (if state_w e < 520 then 70 else 120)
          (fst (tryBuildTargets e fp c)) (snd (tryBuildTargets e fp c)))))
       (snd (spawnBatch e (if state_w e < 520 then 70 else 120)
          (fst (tryBuildTargets e fp c)) (snd (tryBuildTargets e fp c)))))
   \<and> targetPoints (fst (facePortrait_update e sc fp c)) =
       targetPoints (fst (spawnBatch e (if state_w e < 520 then 70 else 120)
          (fst (tryBuildTargets e fp c)) (snd (tryBuildTargets e fp c))))
   \<and> ready (fst (facePortrait_update e sc fp c)) =
       ready (fst (spawnBatch e (if state_w e < 520 then 70 else 120)
          (fst (tryBuildTargets e fp c)) (snd (tryBuildTargets e fp c))))
   \<and> builtOnce (fst (facePortrait_update e sc fp c)) =
       builtOnce (fst (spawnBatch e (if state_w e < 520 then 70 else 120)
          (fst (tryBuildTargets e fp c)) (snd (tryBuildTargets e fp c))))"
  by (simp add: facePortrait_update_def split: prod.splits)

lemma facePortrait_update_count:
  assumes "portrait_inv fp"
  shows "portrait_inv (fst (facePortrait_update e sc fp c))
     \<and> length (particles fp) \<le> length (particles (fst (facePortrait_update e sc fp c)))
     \<and> length (particles (fst (facePortrait_update e sc fp c))) \<le>
         length (particles fp) + (if state_w e < 520 then 70 else 120)
     \<and> length (particles (fst (facePortrait_update e sc fp c))) \<le>
         length (targetPoints (fst (facePortrait_update e sc fp c)))"
proof -
  let ?m = "if state_w e < 520 then 70 else 120 :: nat"
  let ?fp1 = "fst (tryBuildTargets e fp c)"
  let ?c1 = "snd (tryBuildTargets e fp c)"
  let ?fp2 = "fst (spawnBatch e ?m ?fp1 ?c1)"
  have i1: "portrait_inv ?fp1" by (rule inv_tryBuildTargets [OF assms])
  have p1: "particles ?fp1 = particles fp"
    using tryBuildTargets_cases [of e fp c] assms by (auto simp: portrait_inv_def)
  note s = inv_spawnBatch [OF i1, of e ?m ?c1]
  note f = facePortrait_update_fields [of e sc fp c]
  have len: "length (particles (fst (facePortrait_update e sc fp c))) = length (particles ?fp2)"
    using f by (simp add: updateParticles_length)
  have "portrait_inv (fst (facePortrait_update e sc fp c))"
    using s f len unfolding portrait_inv_def by simp
  then show ?thesis using s f len p1 by simp
qed

lemma facePortrait_update_particle:
  assumes "portrait_inv fp" and "i < length (particles fp)"
  shows "\<exists>c'. particles (fst (facePortrait_update e sc fp c)) ! i =
     fst (updateParticle e sc i (particles fp ! i) c')"
proof -
  let ?m = "if state_w e < 520 then 70 else 120 :: nat"
  let ?fp1 = "fst (tryBuildTargets e fp c)"
  let ?c1 = "snd (tryBuildTargets e fp c)"
  let ?fp2 = "fst (spawnBatch e ?m ?fp1 ?c1)"
  let ?c2 = "snd (spawnBatch e ?m ?fp1 ?c1)"
  have i1: "portrait_inv ?fp1" by (rule inv_tryBuildTargets [OF assms(1)])
  have p1: "particles ?fp1 = particles fp"
    using tryBuildTargets_cases [of e fp c] assms(1) by (auto simp: portrait_inv_def)
  note s = inv_spawnBatch [OF i1, of e ?m ?c1]
  have tk: "take (length (particles fp)) (particles ?fp2) = particles fp"
    and le: "length (particles fp) \<le> length (particles ?fp2)"
    using s p1 by simp_all
  have nth: "particles ?fp2 ! i = particles fp ! i"
    using assms(2) tk by (metis nth_take)
  have i2: "i < length (particles ?fp2)" using assms(2) le by simp
  from updateParticles_nth [OF i2, of e sc 0 ?c2] obtain c' where
    "fst (updateParticles e sc 0 (particles ?fp2) ?c2) ! i =
       fst (updateParticle e sc (0 + i) (particles ?fp2 ! i) c')" by blast
  then show ?thesis
    using facePortrait_update_fields [of e sc fp c] nth by (intro exI [of _ c']) simp
qed


lemma update_facePortrait:
  "w_facePortrait (update e dt wd) =
     (if name (w_scene wd) = FACE
      then fst (facePortrait_update e ((w_scene wd)\<lparr>timeIn := timeIn (w_scene wd) + dt\<rparr>)
             (w_facePortrait wd) (rnd wd))
      else w_facePortrait wd)"
  by (cases "name (w_scene wd)") (simp_all add: update_def Let_def split: prod.splits)

lemma inv_init: "portrait_inv facePortrait_init"
  by (simp add: portrait_inv_def facePortrait_init_def)

lemma inv_step: "portrait_inv (w_facePortrait wd) \<Longrightarrow> portrait_inv (w_facePortrait (step ev wd))"
proof (cases ev)
  case (Tick e dt)
  assume "portrait_inv (w_facePortrait wd)"
  then show ?thesis
    using Tick facePortrait_update_count
      [of "w_facePortrait wd" e "(w_scene wd)\<lparr>timeIn := timeIn (w_scene wd) + dt\<rparr>" "rnd wd"]
    by (simp add: update_facePortrait)
next
  case (Replay e)
  then show ?thesis by (simp add: resetAll_def inv_init split: prod.splits)
qed

lemma inv_run: "portrait_inv (w_facePortrait wd) \<Longrightarrow> portrait_inv (w_facePortrait (run evs wd))"
  by (induction evs arbitrary: wd) (simp_all add: inv_step)

lemma inv_reachable: "portrait_inv (w_facePortrait (run evs (resetAll e wd)))"
  by (rule inv_run) (simp add: resetAll_def inv_init split: prod.splits)

text \<open>
  C8: on a portrait that satisfies the invariant, as every portrait the program reaches
  does, one call of \<^verbatim>\<open>facePortrait.update\<close> keeps every particle \<open>p\<close> that was
  there, at its index, with its luminance; the target of
  its alpha is \<open>clamp (0.55 + lum * 0.55) 0.35 0.95\<close>; its new alpha is the old one while
  its delay has not elapsed, and otherwise the linear interpolation of the old alpha and
  the target with factor 0.06; so the distance of its alpha to the target never grows.
\<close>

theorem particle_alpha_no_overshoot:
  assumes "portrait_inv fp" and "i < length (particles fp)"
    and "p = particles fp ! i" and "q = particles (fst (facePortrait_update e sc fp c)) ! i"
  shows "i < length (particles (fst (facePortrait_update e sc fp c)))
     \<and> p_lum q = p_lum p
     \<and> targetA (p_lum p) = clamp (0.55 + p_lum p * 0.55) 0.35 0.95
     \<and> p_a q = (if timeIn sc - delay p < 0 then p_a p else lerp (p_a p) (targetA (p_lum p)) 0.06)
     \<and> \<bar>p_a q - targetA (p_lum q)\<bar> \<le> \<bar>p_a p - targetA (p_lum p)\<bar>"
proof -
  obtain c' where q: "q = fst (updateParticle e sc i p c')"
    using facePortrait_update_particle [OF assms(1,2), of e sc c] assms(3,4) by auto
  note a = updateParticle_alpha [of e sc i p c']
  have len: "i < length (particles (fst (facePortrait_update e sc fp c)))"
    using facePortrait_update_count [OF assms(1), of e sc c] assms(2) by simp
  have "\<bar>lerp (p_a p) (targetA (p_lum p)) 0.06 - targetA (p_lum p)\<bar> \<le> \<bar>p_a p - targetA (p_lum p)\<bar>"
    by (rule lerp_no_overshoot) simp_all
  then have "\<bar>p_a q - targetA (p_lum q)\<bar> \<le> \<bar>p_a p - targetA (p_lum p)\<bar>"
    using a q by simp
  then show ?thesis using a q len by (simp add: targetA_def)
qed

text \<open>
  The particle of the sample portrait, whose target is 0.825: after its delay its alpha
  goes from 0 to 0.0495, before its delay it stays 0.
\<close>

theorem particle_alpha_no_overshoot_witness:
  "portrait_inv fpP
   \<and> p_a (particles fpP ! 0) = 0
   \<and> p_a (particles (fst (facePortrait_update env0 \<lparr>name = FACE, timeIn = 1\<rparr> fpP 0)) ! 0) = 0.0495
   \<and> targetA (p_lum (particles fpP ! 0)) = 0.825
   \<and> p_a (particles (fst (facePortrait_update env0 \<lparr>name = FACE, timeIn = 0.2\<rparr> fpP 0)) ! 0) = 0"
proof -
  have inv: "portrait_inv fpP" by (simp add: portrait_inv_def fpP_def)
  have i: "0 < length (particles fpP)" by (simp add: fpP_def)
  from particle_alpha_no_overshoot [OF inv i refl refl, of env0 "\<lparr>name = FACE, timeIn = 1\<rparr>" 0]
    particle_alpha_no_overshoot [OF inv i refl refl, of env0 "\<lparr>name = FACE, timeIn = 0.2\<rparr>" 0]
    inv
  show ?thesis by (simp add: fpP_def lerp_def clamp_def)
qed

text \<open>
  C9: one call of \<^verbatim>\<open>facePortrait.update\<close> on a portrait that satisfies the invariant
  does not lower the number of particles, leaves it at most the number of target points,
  adds at most 70 particles when the viewport is narrower than 520 and at most 120
  otherwise, and keeps the invariant. Every state reached from \<^verbatim>\<open>resetAll\<close> by
  ticks and replays satisfies the invariant, so the same holds of every tick of the
  program.
\<close>

theorem particle_count_monotone_bounded:
  "(portrait_inv fp \<longrightarrow>
      length (particles fp) \<le> length (particles (fst (facePortrait_update e sc fp c)))
    \<and> length (particles (fst (facePortrait_update e sc fp c))) \<le>
        length (targetPoints (fst (facePortrait_update e sc fp c)))
    \<and> length (particles (fst (facePortrait_update e sc fp c))) \<le>
        length (particles fp) + (if state_w e < 520 then 70 else 120)
    \<and> portrait_inv (fst (facePortrait_update e sc fp c)))
   \<and> portrait_inv (w_facePortrait (run evs (resetAll e0 wd0)))
   \<and> length (particles (w_facePortrait (run evs (resetAll e0 wd0)))) \<le>
       length (particles (w_facePortrait (update e dt (run evs (resetAll e0 wd0)))))
   \<and> length (particles (w_facePortrait (update e dt (run evs (resetAll e0 wd0))))) \<le>
       length (targetPoints (w_facePortrait (update e dt (run evs (resetAll e0 wd0)))))
   \<and> length (particles (w_facePortrait (update e dt (run evs (resetAll e0 wd0))))) \<le>
       length (particles (w_facePortrait (run evs (resetAll e0 wd0))))
         + (if state_w e < 520 then 70 else 120)"
proof -
  let ?wd = "run evs (resetAll e0 wd0)"
  have inv: "portrait_inv (w_facePortrait ?wd)" by (rule inv_reachable)
  have le: "length (particles (w_facePortrait ?wd)) \<le> length (targetPoints (w_facePortrait ?wd))"
    using inv by (auto simp: portrait_inv_def)
  note u = facePortrait_update_count
    [OF inv, of e "(w_scene ?wd)\<lparr>timeIn := timeIn (w_scene ?wd) + dt\<rparr>" "rnd ?wd"]
  have w: "length (particles (w_facePortrait ?wd)) \<le> length (particles (w_facePortrait (update e dt ?wd)))
    \<and> length (particles (w_facePortrait (update e dt ?wd))) \<le>
        length (targetPoints (w_facePortrait (update e dt ?wd)))
    \<and> length (particles (w_facePortrait (update e dt ?wd))) \<le>
        length (particles (w_facePortrait ?wd)) + (if state_w e < 520 then 70 else 120)"
    using u le by (cases "state_w e < 520") (auto simp: update_facePortrait)
  from w inv facePortrait_update_count [of fp e sc c] show ?thesis by blast
qed


lemma facePortrait_update_exact:
  assumes "builtOnce fp"
  shows "length (particles (fst (facePortrait_update e sc fp c))) =
     length (particles fp) +
       (if ready fp \<and> length (particles fp) < length (targetPoints fp)
        then min (length (targetPoints fp))
               (length (particles fp) + (if state_w e < 520 then 70 else 120))
             - length (particles fp)
        else 0)"
proof -
  let ?m = "if state_w e < 520 then 70 else 120 :: nat"
  have t: "tryBuildTargets e fp c = (fp, c)"
    using assms by (simp add: tryBuildTargets_def)
  obtain new where new:
    "particles (fst (spawnBatch e ?m fp c)) = particles fp @ new"
    "length new =
       (if ready fp \<and> length (particles fp) < length (targetPoints fp)
        then min (length (targetPoints fp)) (length (particles fp) + ?m) - length (particles fp)
        else 0)"
    using spawnBatch_shape [of e ?m fp c] by blast
  show ?thesis
    using facePortrait_update_fields [of e sc fp c] new
    by (simp add: t updateParticles_length)
qed

lemma ready_after_update:
  assumes "\<not> builtOnce fp" and "ok (face (images e))" and "img (face (images e)) \<noteq> None"
  shows "ready (fst (facePortrait_update e sc fp c))"
proof -
  let ?m = "if state_w e < 520 then 70 else 120 :: nat"
  have "ready (fst (tryBuildTargets e fp c))"
    using tryBuildTargets_sets_flags [OF assms, of c] by simp
  then have "ready (fst (spawnBatch e ?m (fst (tryBuildTargets e fp c)) (snd (tryBuildTargets e fp c))))"
    using spawnBatch_shape [of e ?m "fst (tryBuildTargets e fp c)" "snd (tryBuildTargets e fp c)"]
    by auto
  then show ?thesis
    using facePortrait_update_fields [of e sc fp c] by simp
qed

text \<open>
  The sample portrait has one particle and 600 targets: a tick makes it 121 particles on
  the viewport of width 1350 and 71 on the viewport of width 20.
\<close>

theorem particle_count_monotone_bounded_witness:
  "portrait_inv fpP \<and> length (particles fpP) = 1 \<and> length (targetPoints fpP) = 600
   \<and> length (particles (fst (facePortrait_update env0 \<lparr>name = FACE, timeIn = 1\<rparr> fpP 0))) = 121
   \<and> length (particles (fst (facePortrait_update envF \<lparr>name = FACE, timeIn = 1\<rparr> fpP 0))) = 71
   \<and> portrait_inv (fst (facePortrait_update env0 \<lparr>name = FACE, timeIn = 1\<rparr> fpP 0))"
proof -
  have inv: "portrait_inv fpP" by (simp add: portrait_inv_def fpP_def)
  have b: "builtOnce fpP" by (simp add: fpP_def)
  note t1 = particle_count_monotone_bounded
    [of fpP env0 "\<lparr>name = FACE, timeIn = 1\<rparr>" 0 "[]" env0 world0 0]
  note t2 = particle_count_monotone_bounded
    [of fpP envF "\<lparr>name = FACE, timeIn = 1\<rparr>" 0 "[]" env0 world0 0]
  from mp [OF conjunct1 [OF t1] inv] mp [OF conjunct1 [OF t2] inv] inv
    facePortrait_update_exact [OF b, of env0 "\<lparr>name = FACE, timeIn = 1\<rparr>" 0]
    facePortrait_update_exact [OF b, of envF "\<lparr>name = FACE, timeIn = 1\<rparr>" 0]
  show ?thesis by (simp add: fpP_def env0_def envF_def)
qed

text \<open>
  C10: in every state reached from \<^verbatim>\<open>resetAll\<close> by ticks and replays, a ready
  portrait has at least 600 target points; and a call of \<^verbatim>\<open>tryBuildTargets\<close>
  either changes nothing or leaves the portrait ready with at least 600 target points,
  the latter whenever the portrait was not built and the face image has loaded.
\<close>

theorem ready_implies_600_targets:
  "(ready (w_facePortrait (run evs (resetAll e wd))) \<longrightarrow>
      600 \<le> length (targetPoints (w_facePortrait (run evs (resetAll e wd)))))
   \<and> (\<not> builtOnce fp \<and> ok (face (images e')) \<and> img (face (images e')) \<noteq> None \<longrightarrow>
        ready (fst (tryBuildTargets e' fp c))
      \<and> 600 \<le> length (targetPoints (fst (tryBuildTargets e' fp c))))
   \<and> (tryBuildTargets e' fp c = (fp, c)
      \<or> ready (fst (tryBuildTargets e' fp c))
        \<and> 600 \<le> length (targetPoints (fst (tryBuildTargets e' fp c))))"
proof -
  have a: "600 \<le> length (targetPoints (w_facePortrait (run evs (resetAll e wd))))"
    if "ready (w_facePortrait (run evs (resetAll e wd)))"
    using inv_reachable [of evs e wd] that by (simp add: portrait_inv_def)
  have b: "ready (fst (tryBuildTargets e' fp c))
      \<and> 600 \<le> length (targetPoints (fst (tryBuildTargets e' fp c)))"
    if "\<not> builtOnce fp \<and> ok (face (images e')) \<and> img (face (images e')) \<noteq> None"
    using tryBuildTargets_cases [of e' fp c] tryBuildTargets_sets_flags [of fp e' c] that by auto
  from a b tryBuildTargets_cases [of e' fp c] show ?thesis by blast
qed

text \<open>
  Three long ticks take the program from Seed through Tree and Pause into the portrait
  scene, without touching the portrait.
\<close>

lemma run_to_face:
  "name (w_scene (run [Tick envF 3, Tick envF 8, Tick envF 2] (resetAll envF world0))) = FACE
   \<and> w_facePortrait (run [Tick envF 3, Tick envF 8, Tick envF 2] (resetAll envF world0)) =
       facePortrait_init"
  by (simp add: resetAll_def update_def Let_def switchTo_def seed_update_def tree_update_def
      growTime_def clamp_def envF_def world0_def split_beta)

text \<open>
  On the viewport of width 20 with the face image loaded, the first tick of the portrait
  scene builds the targets: the portrait is ready and has at least 600 target points.
\<close>

theorem ready_implies_600_targets_witness:
  "ready (w_facePortrait
     (run [Tick envF 3, Tick envF 8, Tick envF 2, Tick envF 0.04] (resetAll envF world0)))
   \<and> 600 \<le> length (targetPoints (w_facePortrait
     (run [Tick envF 3, Tick envF 8, Tick envF 2, Tick envF 0.04] (resetAll envF world0))))
   \<and> ready (fst (tryBuildTargets envF facePortrait_init 0))
   \<and> 600 \<le> length (targetPoints (fst (tryBuildTargets envF facePortrait_init 0)))"
proof -
  let ?wd = "run [Tick envF 3, Tick envF 8, Tick envF 2] (resetAll envF world0)"
  have nb: "\<not> builtOnce facePortrait_init" by (simp add: facePortrait_init_def)
  have ok: "ok (face (images envF))" "img (face (images envF)) \<noteq> None"
    by (simp_all add: envF_def)
  have r: "run [Tick envF 3, Tick envF 8, Tick envF 2, Tick envF 0.04] (resetAll envF world0) =
      update envF 0.04 ?wd"
    using run_append [of "[Tick envF 3, Tick envF 8, Tick envF 2]" "[Tick envF 0.04]"
        "resetAll envF world0"] by simp
  have rd: "ready (w_facePortrait (update envF 0.04 ?wd))"
    using run_to_face ready_after_update [OF nb ok]
    by (simp add: update_facePortrait)
  note t = ready_implies_600_targets
    [of "[Tick envF 3, Tick envF 8, Tick envF 2, Tick envF 0.04]" envF world0
        facePortrait_init envF 0]
  from t rd nb ok show ?thesis unfolding r by simp
qed

end
